theory Spec2Isabelle
  imports Main "HOL-Library.Word" "HOL-Library.Sublist"
begin

section \<open>Geometry normalisation (vision-api.go, document-ai.go)\<close>

text \<open>
  A vertex of \<open>visionpb.BoundingPoly\<close> and of \<open>documentaipb.BoundingPoly\<close> carries two
  \<open>int32\<close> coordinates. The Go functions take a pointer to the polygon: \<open>None\<close> is the
  nil pointer, \<open>Some vs\<close> a polygon whose \<open>Vertices\<close> slice is \<open>vs\<close>.
  \<open>image.Rectangle\<close> holds two points of Go \<open>int\<close>, into which every \<open>int32\<close> fits.
\<close>

type_synonym int32 = "32 word"

record Vertex =
  X :: int32
  Y :: int32

type_synonym BoundingPoly = "Vertex list"

record Point =
  PtX :: int
  PtY :: int

record Rectangle =
  Min_pt :: Point
  Max_pt :: Point

text \<open>The zero value of \<open>image.Rectangle\<close>, which \<open>var result image.Rectangle\<close> declares.\<close>

definition zero_Rectangle :: Rectangle where
  "zero_Rectangle = \<lparr>Min_pt = \<lparr>PtX = 0, PtY = 0\<rparr>, Max_pt = \<lparr>PtX = 0, PtY = 0\<rparr>\<rparr>"

text \<open>
  Package \<open>go-imath/i32\<close>: \<open>Maximal\<close> and \<open>Minimal\<close> are the largest and the smallest
  \<open>int32\<close>; \<open>Min\<close> returns \<open>x\<close> if \<open>x < y\<close> and \<open>y\<close> otherwise, \<open>Max\<close> returns \<open>x\<close>
  if \<open>x > y\<close> and \<open>y\<close> otherwise, both on signed values.
\<close>

definition i32_Maximal :: int32 where
  "i32_Maximal = 0x7FFFFFFF"

definition i32_Minimal :: int32 where
  "i32_Minimal = 0x80000000"

definition i32_Min :: "int32 \<Rightarrow> int32 \<Rightarrow> int32" where
  "i32_Min x y = (if sint x < sint y then x else y)"

definition i32_Max :: "int32 \<Rightarrow> int32 \<Rightarrow> int32" where
  "i32_Max x y = (if sint x > sint y then x else y)"

text \<open>
  The body of \<open>for _, vertex := range boundingBox.Vertices\<close>, on the four running values
  \<open>(minX, minY, maxX, maxY)\<close>.
\<close>

fun bbox_loop :: "Vertex list \<Rightarrow> int32 \<times> int32 \<times> int32 \<times> int32 \<Rightarrow> int32 \<times> int32 \<times> int32 \<times> int32" where
  "bbox_loop [] acc = acc"
| "bbox_loop (vertex # vs) (minX, minY, maxX, maxY) =
     bbox_loop vs (i32_Min minX (X vertex), i32_Min minY (Y vertex),
                   i32_Max maxX (X vertex), i32_Max maxY (Y vertex))"

definition GetBoundingBox :: "BoundingPoly option \<Rightarrow> Rectangle" where
  "GetBoundingBox boundingBox =
     (case boundingBox of
        None \<Rightarrow> zero_Rectangle
      | Some vertices \<Rightarrow>
          (case bbox_loop vertices (i32_Maximal, i32_Maximal, i32_Minimal, i32_Minimal) of
             (minX, minY, maxX, maxY) \<Rightarrow>
               \<lparr>Min_pt = \<lparr>PtX = sint minX, PtY = sint minY\<rparr>,
                Max_pt = \<lparr>PtX = sint maxX, PtY = sint maxY\<rparr>\<rparr>))"

text \<open>\<open>GetLayoutBoundingBox\<close> of document-ai.go has the same body on the Document AI types.\<close>

definition GetLayoutBoundingBox :: "BoundingPoly option \<Rightarrow> Rectangle" where
  "GetLayoutBoundingBox boundingBox =
     (case boundingBox of
        None \<Rightarrow> zero_Rectangle
      | Some vertices \<Rightarrow>
          (case bbox_loop vertices (i32_Maximal, i32_Maximal, i32_Minimal, i32_Minimal) of
             (minX, minY, maxX, maxY) \<Rightarrow>
               \<lparr>Min_pt = \<lparr>PtX = sint minX, PtY = sint minY\<rparr>,
                Max_pt = \<lparr>PtX = sint maxX, PtY = sint maxY\<rparr>\<rparr>))"

text \<open>
  \<open>GetOrientation\<close>: the guard \<open>boundingBox == nil || len(boundingBox.Vertices) < 3\<close>
  comes first, so the reads of \<open>Vertices[0]\<close> and \<open>Vertices[2]\<close> are in range.
\<close>

definition GetOrientation :: "BoundingPoly option \<Rightarrow> int" where
  "GetOrientation boundingBox =
     (case boundingBox of
        None \<Rightarrow> 0
      | Some vertices \<Rightarrow>
          if length vertices < 3 then 0
          else if sint (X (vertices ! 0)) > sint (X (vertices ! 2)) then
            (if sint (Y (vertices ! 0)) > sint (Y (vertices ! 2)) then 180 else 270)
          else
            (if sint (Y (vertices ! 0)) > sint (Y (vertices ! 2)) then 90 else 0))"

definition GetLayoutOrientation :: "BoundingPoly option \<Rightarrow> int" where
  "GetLayoutOrientation boundingBox =
     (case boundingBox of
        None \<Rightarrow> 0
      | Some vertices \<Rightarrow>
          if length vertices < 3 then 0
          else if sint (X (vertices ! 0)) > sint (X (vertices ! 2)) then
            (if sint (Y (vertices ! 0)) > sint (Y (vertices ! 2)) then 180 else 270)
          else
            (if sint (Y (vertices ! 0)) > sint (Y (vertices ! 2)) then 90 else 0))"

section \<open>Strings and slices of Go\<close>

text \<open>
  A Go string is a sequence of bytes, indexed and sliced by byte position: \<open>string\<close> here,
  a list of 8-bit characters. A slice expression \<open>s[lo:hi]\<close> panics at run time unless
  \<open>0 \<le> lo \<le> hi \<le> len(s)\<close>.
\<close>

datatype go_panic = SliceBoundsOutOfRange

definition slice_expr :: "string \<Rightarrow> int \<Rightarrow> int \<Rightarrow> go_panic + string" where
  "slice_expr s lo hi =
     (if 0 \<le> lo \<and> lo \<le> hi \<and> hi \<le> int (length s)
      then Inr (take (nat (hi - lo)) (drop (nat lo) s))
      else Inl SliceBoundsOutOfRange)"

text \<open>
  \<open>strings.Index(s, substr)\<close>: the byte index of the first instance of \<open>substr\<close> in
  \<open>s\<close>, or \<open>-1\<close> if there is none.
\<close>

fun strings_Index :: "string \<Rightarrow> string \<Rightarrow> int" where
  "strings_Index [] substr = (if substr = [] then 0 else - 1)"
| "strings_Index (c # s) substr =
     (if prefix substr (c # s) then 0
      else (let i = strings_Index s substr in if i < 0 then - 1 else i + 1))"

section \<open>Document AI endpoint and text anchors (document-ai.go)\<close>

text \<open>The two fields of \<open>url.URL\<close> that the code reads.\<close>

record URL =
  Host :: string
  Path :: string

definition GetHostName :: "URL \<Rightarrow> string" where
  "GetHostName endpoint =
     (let host = Host endpoint
      in if strings_Index host '':'' \<ge> 0 then host else host @ '':443'')"

definition GetRequestName :: "URL \<Rightarrow> go_panic + string" where
  "GetRequestName endpoint =
     (let name = Path endpoint; i = strings_Index name ''/projects/''
      in if i \<ge> 0 then
           (case slice_expr name (i + 1) (int (length name)) of
              Inl e \<Rightarrow> Inl e
            | Inr name1 \<Rightarrow>
                (let j = strings_Index name1 '':''
                 in if j \<ge> 0 then slice_expr name1 0 j else Inr name1))
         else Inr name)"

text \<open>
  \<open>URL.Port\<close> of Go's \<open>net/url\<close>, which says what the port of a host string is: the part
  after the last colon, provided that it consists of decimal digits only; otherwise the host
  has no port and the result is empty.
\<close>

definition is_digit :: "char \<Rightarrow> bool" where
  "is_digit c = (of_char (CHR ''0'') \<le> (of_char c :: nat) \<and> (of_char c :: nat) \<le> of_char (CHR ''9''))"

definition url_Port :: "string \<Rightarrow> string" where
  "url_Port host =
     (let tail = rev (takeWhile (\<lambda>c. c \<noteq> CHR '':'') (rev host))
      in if CHR '':'' \<in> set host \<and> list_all is_digit tail then tail else [])"

text \<open>
  A text segment of a Document AI text anchor: two \<open>int64\<close> offsets into the document text.
  The loop of \<open>GetTextFromSegments\<close> appends \<open>text[StartIndex : EndIndex-1]\<close> for each
  segment; the subtraction is that of \<open>int64\<close>, and the first slice out of range panics.
\<close>

type_synonym int64 = "64 word"

record TextSegment =
  StartIndex :: int64
  EndIndex :: int64

fun segments_loop :: "TextSegment list \<Rightarrow> string \<Rightarrow> string \<Rightarrow> go_panic + string" where
  "segments_loop [] text result = Inr result"
| "segments_loop (textSegment # rest) text result =
     (case slice_expr text (sint (StartIndex textSegment)) (sint (EndIndex textSegment - 1)) of
        Inl e \<Rightarrow> Inl e
      | Inr piece \<Rightarrow> segments_loop rest text (result @ piece))"

definition GetTextFromSegments :: "TextSegment list \<Rightarrow> string \<Rightarrow> go_panic + string" where
  "GetTextFromSegments textSegments documentText = segments_loop textSegments documentText []"

text \<open>
  The substring of \<open>s\<close> from position \<open>a\<close> (inclusive) to position \<open>b\<close> (exclusive), read
  off character by character: the yardstick for the text-anchor extraction.
\<close>

definition substring :: "string \<Rightarrow> nat \<Rightarrow> nat \<Rightarrow> string" where
  "substring s a b = map (\<lambda>i. s ! i) [a..<b]"

text \<open>
  The run-time condition under which the slice expression \<open>text[StartIndex : EndIndex-1]\<close>
  of one segment is in range, with the end offset as the code computes it.
\<close>

definition segment_in_range :: "string \<Rightarrow> TextSegment \<Rightarrow> bool" where
  "segment_in_range text seg \<longleftrightarrow>
     0 \<le> sint (StartIndex seg) \<and> sint (StartIndex seg) \<le> sint (EndIndex seg - 1)
     \<and> sint (EndIndex seg - 1) \<le> int (length text)"

section \<open>Ignore list (vision-api.go)\<close>

text \<open>
  \<open>strings.TrimSpace\<close> removes all leading and all trailing white space, as Unicode defines
  it: the runes for which \<open>unicode.IsSpace\<close> holds, that is U+0009 to U+000D, U+0020,
  U+0085, U+00A0, U+1680, U+2000 to U+200A, U+2028, U+2029, U+202F, U+205F and U+3000.
  On the bytes of a Go string a rune is white space exactly when the bytes at that place
  are the UTF-8 encoding of one of these code points, and from the end of the string
  likewise; bytes that are not valid UTF-8 decode to U+FFFD, which is not white space.
\<close>

definition white_space :: "string list" where
  "white_space =
     [ [CHR 0x09], [CHR 0x0A], [CHR 0x0B], [CHR 0x0C], [CHR 0x0D], [CHR 0x20],
      [CHR 0xC2, CHR 0x85], [CHR 0xC2, CHR 0xA0],
      [CHR 0xE1, CHR 0x9A, CHR 0x80],
      [CHR 0xE2, CHR 0x80, CHR 0x80], [CHR 0xE2, CHR 0x80, CHR 0x81],
      [CHR 0xE2, CHR 0x80, CHR 0x82], [CHR 0xE2, CHR 0x80, CHR 0x83],
      [CHR 0xE2, CHR 0x80, CHR 0x84], [CHR 0xE2, CHR 0x80, CHR 0x85],
      [CHR 0xE2, CHR 0x80, CHR 0x86], [CHR 0xE2, CHR 0x80, CHR 0x87],
      [CHR 0xE2, CHR 0x80, CHR 0x88], [CHR 0xE2, CHR 0x80, CHR 0x89],
      [CHR 0xE2, CHR 0x80, CHR 0x8A],
      [CHR 0xE2, CHR 0x80, CHR 0xA8], [CHR 0xE2, CHR 0x80, CHR 0xA9],
      [CHR 0xE2, CHR 0x80, CHR 0xAF], [CHR 0xE2, CHR 0x81, CHR 0x9F],
      [CHR 0xE3, CHR 0x80, CHR 0x80] ]"

text \<open>
  The width in bytes of the white-space rune that the string begins with, and of the one
  it ends with; 0 when there is none.
\<close>

definition leading_width :: "string \<Rightarrow> nat" where
  "leading_width s = (case find (\<lambda>e. prefix e s) white_space of None \<Rightarrow> 0 | Some e \<Rightarrow> length e)"

definition trailing_width :: "string \<Rightarrow> nat" where
  "trailing_width s = (case find (\<lambda>e. suffix e s) white_space of None \<Rightarrow> 0 | Some e \<Rightarrow> length e)"

function TrimLeft :: "string \<Rightarrow> string" where
  "TrimLeft s = (if leading_width s = 0 then s else TrimLeft (drop (leading_width s) s))"
  by pat_completeness auto
termination
proof (relation "measure length")
  show "wf (measure length)" by simp
next
  fix s :: string
  assume "leading_width s \<noteq> 0"
  moreover have "leading_width [] = 0" by (simp add: leading_width_def white_space_def)
  ultimately have "s \<noteq> []" by auto
  with \<open>leading_width s \<noteq> 0\<close> show "(drop (leading_width s) s, s) \<in> measure length" by simp
qed

function TrimRight :: "string \<Rightarrow> string" where
  "TrimRight s = (if trailing_width s = 0 then s else TrimRight (take (length s - trailing_width s) s))"
  by pat_completeness auto
termination
proof (relation "measure length")
  show "wf (measure length)" by simp
next
  fix s :: string
  assume "trailing_width s \<noteq> 0"
  moreover have "trailing_width [] = 0" by (simp add: trailing_width_def white_space_def)
  ultimately have "s \<noteq> []" by auto
  with \<open>trailing_width s \<noteq> 0\<close> show "(take (length s - trailing_width s) s, s) \<in> measure length"
    by simp
qed

declare TrimLeft.simps [simp del]
declare TrimRight.simps [simp del]

definition TrimSpace :: "string \<Rightarrow> string" where
  "TrimSpace s = TrimRight (TrimLeft s)"

text \<open>
  \<open>lineBreakRegExp.Split(s, -1)\<close> for the expression \<open>\r?\n\<close>: the pieces of \<open>s\<close> between
  the matches, which are found from left to right, a carriage return belonging to the match
  when a line feed follows it. The first argument is the piece read since the last match.
  The empty string gives one empty piece.
\<close>

definition LF :: char where
  "LF = CHR 0x0A"

definition CR :: char where
  "CR = CHR 0x0D"

fun lineBreak_Split :: "string \<Rightarrow> string \<Rightarrow> string list" where
  "lineBreak_Split cur [] = [cur]"
| "lineBreak_Split cur [c] = (if c = LF then [cur, [] ] else [cur @ [c] ])"
| "lineBreak_Split cur (c # d # s) =
     (if c = LF then cur # lineBreak_Split [] (d # s)
      else if c = CR \<and> d = LF then cur # lineBreak_Split [] s
      else lineBreak_Split (cur @ [c]) (d # s))"

text \<open>The loop \<open>for _, g := range globs\<close> of \<open>handleIgnoreFile\<close>, on \<open>cleanGlobs\<close>.\<close>

fun clean_loop :: "string list \<Rightarrow> string list \<Rightarrow> string list" where
  "clean_loop [] cleanGlobs = cleanGlobs"
| "clean_loop (g # globs) cleanGlobs =
     (let s = TrimSpace g
      in if length s > 0 then clean_loop globs (cleanGlobs @ [s]) else clean_loop globs cleanGlobs)"

text \<open>
  What the file system answers: \<open>io.ReadAll\<close> fails or yields the contents; \<open>os.Open\<close>
  fails because the file does not exist, fails for another reason, or yields a reader.
  Each function returns its list together with the messages it logged at error level.
\<close>

datatype read_result = ReadFailed | ReadOk string

datatype open_result = NotExist | OpenFailed | Opened read_result

definition handleIgnoreFile :: "read_result \<Rightarrow> string list \<times> string list" where
  "handleIgnoreFile file =
     (case file of
        ReadFailed \<Rightarrow> ([], [''couldn't Read ignore file.''])
      | ReadOk fileContents \<Rightarrow> (clean_loop (lineBreak_Split [] fileContents) [], []))"

definition GetIgnoreList :: "open_result \<Rightarrow> string list \<times> string list" where
  "GetIgnoreList opened =
     (case opened of
        NotExist \<Rightarrow> ([], [])
      | OpenFailed \<Rightarrow> ([], [''couldn't Open ignore file.''])
      | Opened fileReader \<Rightarrow> handleIgnoreFile fileReader)"

section \<open>Buffered output and the batch run (image-ocr.go)\<close>

type_synonym bytes = string

text \<open>A Go \<open>error\<close> value, by its message; \<open>None\<close> is \<open>nil\<close>.\<close>

type_synonym error = string

text \<open>
  The output file that \<open>os.Create\<close> returns, as the writer sees it: the bytes it holds
  and the number of bytes the device still accepts. \<open>Write\<close> stores all of \<open>p\<close>, or the
  part of \<open>p\<close> that fits together with an error; it returns the number of bytes stored.
\<close>

record File =
  written :: bytes
  room :: nat

definition File_Write :: "File \<Rightarrow> bytes \<Rightarrow> nat \<times> error option \<times> File" where
  "File_Write f p =
     (if length p \<le> room f
      then (length p, None, f\<lparr>written := written f @ p, room := room f - length p\<rparr>)
      else (room f, Some ''no space left on device'',
            f\<lparr>written := written f @ take (room f) p, room := 0\<rparr>))"

text \<open>
  \<open>bufio.Writer\<close>, which \<open>bufio.NewWriter(f)\<close> creates with a buffer of 4096 bytes:
  the buffered bytes \<open>b.buf[0:b.n]\<close>, the error \<open>b.err\<close> that sticks once a write to the
  file has failed, and the file \<open>b.wr\<close>.
\<close>

record Writer =
  buf :: bytes
  err :: "error option"
  wr :: File

definition defaultBufSize :: nat where
  "defaultBufSize = 4096"

definition NewWriter :: "File \<Rightarrow> Writer" where
  "NewWriter f = \<lparr>buf = [], err = None, wr = f\<rparr>"

definition Available :: "Writer \<Rightarrow> nat" where
  "Available b = defaultBufSize - length (buf b)"

definition Buffered :: "Writer \<Rightarrow> nat" where
  "Buffered b = length (buf b)"

text \<open>
  \<open>Flush\<close> returns the sticky error if there is one, does nothing on an empty buffer, and
  otherwise writes the buffer to the file; on failure it keeps the bytes that were not
  written and records the error.
\<close>

definition Flush :: "Writer \<Rightarrow> error option \<times> Writer" where
  "Flush b =
     (case err b of
        Some e \<Rightarrow> (Some e, b)
      | None \<Rightarrow>
          if Buffered b = 0 then (None, b)
          else
            (case File_Write (wr b) (buf b) of
               (n, e, f) \<Rightarrow>
                 (case (if n < Buffered b \<and> e = None then Some ''short write'' else e) of
                    Some e' \<Rightarrow> (Some e', b\<lparr>buf := drop n (buf b), err := Some e', wr := f\<rparr>)
                  | None \<Rightarrow> (None, b\<lparr>buf := [], wr := f\<rparr>))))"

text \<open>
  \<open>Write\<close>: while \<open>p\<close> does not fit into the buffer and no error has occurred, a write
  into an empty buffer goes to the file directly, and otherwise the buffer is filled up
  and flushed. Then the sticky error is returned if there is one, and else the rest of
  \<open>p\<close> is copied into the buffer.
\<close>

function Write_loop :: "Writer \<Rightarrow> bytes \<Rightarrow> nat \<Rightarrow> Writer \<times> bytes \<times> nat" where
  "Write_loop b p nn =
     (if length p > Available b \<and> err b = None then
        (if Buffered b = 0 then
           (case File_Write (wr b) p of
              (n, e, f) \<Rightarrow> Write_loop (b\<lparr>err := e, wr := f\<rparr>) (drop n p) (nn + n))
         else
           (let n = min (Available b) (length p);
                b1 = b\<lparr>buf := buf b @ take n p\<rparr>;
                b2 = snd (Flush b1)
            in Write_loop b2 (drop n p) (nn + n)))
      else (b, p, nn))"
  by pat_completeness auto
termination
proof (relation "measure (\<lambda>(b, p, nn).
    if err b \<noteq> None then 0 else 2 * length p + (if buf b = [] then 0 else 1))")
  show "wf (measure (\<lambda>(b, p, nn).
    if err b \<noteq> None then 0 else 2 * length p + (if buf b = [] then 0 else 1)))"
    by simp
next
  fix b :: Writer and p :: bytes and nn :: nat and x xa y ya
  assume "Available b < length p \<and> err b = None" "Buffered b = 0"
    "(x, xa) = File_Write (wr b) p" "(y, ya) = xa"
  then show "((b\<lparr>err := y, wr := ya\<rparr>, drop x p, nn + x), b, p, nn)
    \<in> measure (\<lambda>(b, p, nn).
        if err b \<noteq> None then 0 else 2 * length p + (if buf b = [] then 0 else 1))"
    by (auto simp: File_Write_def Buffered_def split: if_splits)
next
  fix b :: Writer and p :: bytes and nn :: nat and x xa xb
  assume "Available b < length p \<and> err b = None" "Buffered b \<noteq> 0"
    "x = min (Available b) (length p)" "xa = b\<lparr>buf := buf b @ take x p\<rparr>"
    "xb = snd (Flush xa)"
  then show "((xb, drop x p, nn + x), b, p, nn)
    \<in> measure (\<lambda>(b, p, nn).
        if err b \<noteq> None then 0 else 2 * length p + (if buf b = [] then 0 else 1))"
    by (auto simp: Flush_def File_Write_def Buffered_def Available_def split: if_splits)
qed

declare Write_loop.simps [simp del]

definition Write :: "Writer \<Rightarrow> bytes \<Rightarrow> (nat \<times> error option) \<times> Writer" where
  "Write b p =
     (case Write_loop b p 0 of
        (b', p', nn) \<Rightarrow>
          (case err b' of
             Some e \<Rightarrow> ((nn, Some e), b')
           | None \<Rightarrow>
               (let n = min (Available b') (length p')
                in ((nn + n, None), b'\<lparr>buf := buf b' @ take n p'\<rparr>))))"

text \<open>
  \<open>WriteString\<close> goes through the same steps on the bytes of the string; its direct
  write uses the \<open>WriteString\<close> of the file, which stores bytes as \<open>Write\<close> does.
\<close>

definition WriteString :: "Writer \<Rightarrow> string \<Rightarrow> (nat \<times> error option) \<times> Writer" where
  "WriteString b s = Write b s"

text \<open>
  The methods of \<open>ImageInfo\<close> that the batch run calls reach the network and the JSON
  encoder; they are parameters here. A recognition call returns its error and the image
  record as it has left it; an encoder returns the bytes and its error.
\<close>

record 'img Methods =
  CallVisionAPI :: "'img \<Rightarrow> error option \<times> 'img"
  CallDocumentAI :: "string \<Rightarrow> 'img \<Rightarrow> error option \<times> 'img"
  GetFullJSON :: "'img \<Rightarrow> bytes \<times> error option"
  GetCompactJSON :: "'img \<Rightarrow> bytes \<times> error option"

text \<open>
  The body of the loop \<open>for i := range files.Images\<close> for one image: every
  \<open>errorCount++; continue\<close> of the source is a branch that returns the counter plus one.
  The value that \<open>w.Flush()\<close> returns is not looked at.
\<close>

definition process_image ::
  "'img Methods \<Rightarrow> bool \<Rightarrow> string \<Rightarrow> 'img \<Rightarrow> Writer \<Rightarrow> nat \<Rightarrow> 'img \<times> Writer \<times> nat" where
  "process_image m outputFull predictionEndpoint info w errorCount =
     (case (if length predictionEndpoint = 0 then CallVisionAPI m info
            else CallDocumentAI m predictionEndpoint info) of
        (Some e, info') \<Rightarrow> (info', w, errorCount + 1)
      | (None, info') \<Rightarrow>
          (case (if outputFull then GetFullJSON m info' else GetCompactJSON m info') of
             (jsonData, Some e) \<Rightarrow> (info', w, errorCount + 1)
           | (jsonData, None) \<Rightarrow>
               (case Write w jsonData of
                  ((n, Some e), w1) \<Rightarrow> (info', w1, errorCount + 1)
                | ((n, None), w1) \<Rightarrow>
                    (case WriteString w1 [CHR 0x0A] of
                       ((n', Some e), w2) \<Rightarrow> (info', w2, errorCount + 1)
                     | ((n', None), w2) \<Rightarrow> (info', snd (Flush w2), errorCount)))))"

fun images_loop ::
  "'img Methods \<Rightarrow> bool \<Rightarrow> string \<Rightarrow> 'img list \<Rightarrow> Writer \<Rightarrow> nat \<Rightarrow> 'img list \<times> Writer \<times> nat" where
  "images_loop m outputFull predictionEndpoint [] w errorCount = ([], w, errorCount)"
| "images_loop m outputFull predictionEndpoint (info # images) w errorCount =
     (case process_image m outputFull predictionEndpoint info w errorCount of
        (info', w', errorCount') \<Rightarrow>
          (case images_loop m outputFull predictionEndpoint images w' errorCount' of
             (images', w'', errorCount'') \<Rightarrow> (info' # images', w'', errorCount'')))"

text \<open>
  \<open>DetectImageText\<close>. The second argument is what \<open>os.Create(outputFile)\<close> yields: no
  file when it fails, the empty output file otherwise. The result is the returned error,
  the images as the run leaves them, and the output file when the run is over.
\<close>

definition DetectImageText ::
  "'img Methods \<Rightarrow> File option \<Rightarrow> 'img list \<Rightarrow> bool \<Rightarrow> string
     \<Rightarrow> error option \<times> 'img list \<times> File option" where
  "DetectImageText m created images outputFull predictionEndpoint =
     (case created of
        None \<Rightarrow> (Some ''Failed to create output file'', images, None)
      | Some f \<Rightarrow>
          (case images_loop m outputFull predictionEndpoint images (NewWriter f) 0 of
             (images', w, errorCount) \<Rightarrow>
               (if errorCount > 0 then Some ''One or more OCR request failed'' else None,
                images', Some (wr w))))"

text \<open>
  What recognition and serialization alone make of one image: the line to be written, the
  serialized record followed by a line feed, or nothing when either step fails. From it,
  the output a run is expected to leave, one line per image that yields one, in the order
  of the images, and the number of images that yield none.
\<close>

definition line_of :: "'img Methods \<Rightarrow> bool \<Rightarrow> string \<Rightarrow> 'img \<Rightarrow> bytes option" where
  "line_of m outputFull predictionEndpoint info =
     (case (if length predictionEndpoint = 0 then CallVisionAPI m info
            else CallDocumentAI m predictionEndpoint info) of
        (Some e, info') \<Rightarrow> None
      | (None, info') \<Rightarrow>
          (case (if outputFull then GetFullJSON m info' else GetCompactJSON m info') of
             (jsonData, Some e) \<Rightarrow> None
           | (jsonData, None) \<Rightarrow> Some (jsonData @ [CHR 0x0A])))"

definition expected_output :: "'img Methods \<Rightarrow> bool \<Rightarrow> string \<Rightarrow> 'img list \<Rightarrow> bytes" where
  "expected_output m outputFull predictionEndpoint images =
     concat (map (\<lambda>info. case line_of m outputFull predictionEndpoint info of
                            None \<Rightarrow> [] | Some line \<Rightarrow> line) images)"

definition failed_count :: "'img Methods \<Rightarrow> bool \<Rightarrow> string \<Rightarrow> 'img list \<Rightarrow> nat" where
  "failed_count m outputFull predictionEndpoint images =
     length (filter (\<lambda>info. line_of m outputFull predictionEndpoint info = None) images)"

text \<open>
  Methods for a run in which every recognition call and every serialization succeeds: the
  image record is its file name, and its serialized form a JSON object with that name.
\<close>

definition succeeding_methods :: "string Methods" where
  "succeeding_methods =
     \<lparr>CallVisionAPI = (\<lambda>info. (None, info)),
      CallDocumentAI = (\<lambda>predictionEndpoint info. (None, info)),
      GetFullJSON = (\<lambda>info. (''{\"filename\":\"'' @ info @ ''\"}'', None)),
      GetCompactJSON = (\<lambda>info. (''{\"filename\":\"'' @ info @ ''\"}'', None))\<rparr>"

section \<open>Properties of the geometry normalisation\<close>

lemma sint_i32_Min: "sint (i32_Min a b) = min (sint a) (sint b)"
  by (simp add: i32_Min_def min_def)

lemma sint_i32_Max: "sint (i32_Max a b) = max (sint a) (sint b)"
  by (simp add: i32_Max_def max_def)

lemma Min_insert_min:
  fixes p q :: int
  assumes "finite S"
  shows "Min (insert (min p q) S) = Min (insert p (insert q S))"
proof (cases "S = {}")
  case True
  then show ?thesis by simp
next
  case False
  with assms show ?thesis by (simp add: min.assoc)
qed

lemma Max_insert_max:
  fixes p q :: int
  assumes "finite S"
  shows "Max (insert (max p q) S) = Max (insert p (insert q S))"
proof (cases "S = {}")
  case True
  then show ?thesis by simp
next
  case False
  with assms show ?thesis by (simp add: max.assoc)
qed

lemma bbox_loop_sint:
  "bbox_loop vs (a, b, c, d) = (a', b', c', d') \<Longrightarrow>
     sint a' = Min (insert (sint a) ((\<lambda>v. sint (X v)) ` set vs)) \<and>
     sint b' = Min (insert (sint b) ((\<lambda>v. sint (Y v)) ` set vs)) \<and>
     sint c' = Max (insert (sint c) ((\<lambda>v. sint (X v)) ` set vs)) \<and>
     sint d' = Max (insert (sint d) ((\<lambda>v. sint (Y v)) ` set vs))"
proof (induction vs arbitrary: a b c d)
  case Nil
  then show ?case by simp
next
  case (Cons v vs)
  from Cons.prems have
    "bbox_loop vs (i32_Min a (X v), i32_Min b (Y v), i32_Max c (X v), i32_Max d (Y v)) = (a', b', c', d')"
    by simp
  from Cons.IH [OF this] show ?case
    by (simp add: sint_i32_Min sint_i32_Max Min_insert_min Max_insert_max)
qed

lemma sint_le_Maximal: "sint (w :: int32) \<le> sint i32_Maximal"
  using sint_lt [of w] by (simp add: i32_Maximal_def)

lemma sint_ge_Minimal: "sint i32_Minimal \<le> sint (w :: int32)"
  using sint_ge [of w] by (simp add: i32_Minimal_def)

lemma Min_insert_top:
  fixes m :: int
  assumes "finite S" "S \<noteq> {}" "\<forall>x\<in>S. x \<le> m"
  shows "Min (insert m S) = Min S"
proof -
  have "Min S \<le> m" using assms by (meson Min_in)
  with assms show ?thesis by (simp add: min_absorb2)
qed

lemma Max_insert_bot:
  fixes m :: int
  assumes "finite S" "S \<noteq> {}" "\<forall>x\<in>S. m \<le> x"
  shows "Max (insert m S) = Max S"
proof -
  have "m \<le> Max S" using assms by (meson Max_in)
  with assms show ?thesis by (simp add: max_absorb2)
qed

lemma bbox_nonempty:
  assumes "vs \<noteq> []"
  shows "(case bbox_loop vs (i32_Maximal, i32_Maximal, i32_Minimal, i32_Minimal) of
             (minX, minY, maxX, maxY) \<Rightarrow>
               \<lparr>Min_pt = \<lparr>PtX = sint minX, PtY = sint minY\<rparr>,
                Max_pt = \<lparr>PtX = sint maxX, PtY = sint maxY\<rparr>\<rparr>)
   = \<lparr>Min_pt = \<lparr>PtX = Min ((\<lambda>v. sint (X v)) ` set vs), PtY = Min ((\<lambda>v. sint (Y v)) ` set vs)\<rparr>,
      Max_pt = \<lparr>PtX = Max ((\<lambda>v. sint (X v)) ` set vs), PtY = Max ((\<lambda>v. sint (Y v)) ` set vs)\<rparr>\<rparr>"
proof -
  obtain a b c d where r: "bbox_loop vs (i32_Maximal, i32_Maximal, i32_Minimal, i32_Minimal) = (a, b, c, d)"
    by (metis prod_cases4)
  from assms have ne: "set vs \<noteq> {}" by simp
  note s = bbox_loop_sint [OF r]
  have fx: "finite ((\<lambda>v. sint (X v)) ` set vs)" "(\<lambda>v. sint (X v)) ` set vs \<noteq> {}"
    and fy: "finite ((\<lambda>v. sint (Y v)) ` set vs)" "(\<lambda>v. sint (Y v)) ` set vs \<noteq> {}"
    using ne by simp_all
  have "sint a = Min (insert (sint i32_Maximal) ((\<lambda>v. sint (X v)) ` set vs))"
    using s by blast
  then have "sint a = Min ((\<lambda>v. sint (X v)) ` set vs)"
    using Min_insert_top [OF fx] sint_le_Maximal by auto
  moreover have "sint b = Min (insert (sint i32_Maximal) ((\<lambda>v. sint (Y v)) ` set vs))"
    using s by blast
  then have "sint b = Min ((\<lambda>v. sint (Y v)) ` set vs)"
    using Min_insert_top [OF fy] sint_le_Maximal by auto
  moreover have "sint c = Max (insert (sint i32_Minimal) ((\<lambda>v. sint (X v)) ` set vs))"
    using s by blast
  then have "sint c = Max ((\<lambda>v. sint (X v)) ` set vs)"
    using Max_insert_bot [OF fx] sint_ge_Minimal by auto
  moreover have "sint d = Max (insert (sint i32_Minimal) ((\<lambda>v. sint (Y v)) ` set vs))"
    using s by blast
  then have "sint d = Max ((\<lambda>v. sint (Y v)) ` set vs)"
    using Max_insert_bot [OF fy] sint_ge_Minimal by auto
  ultimately show ?thesis by (simp add: r)
qed

text \<open>
  Claim C4. For a polygon with at least one vertex, \<open>GetBoundingBox\<close> and
  \<open>GetLayoutBoundingBox\<close> return the rectangle made of the least X, the least Y, the
  greatest X and the greatest Y among the vertices, and in that rectangle the minimum
  corner is not beyond the maximum corner in either coordinate.
\<close>

theorem GetBoundingBox_nonempty:
  assumes "vertices \<noteq> []"
  shows "GetBoundingBox (Some vertices) =
           \<lparr>Min_pt = \<lparr>PtX = Min ((\<lambda>v. sint (X v)) ` set vertices),
                      PtY = Min ((\<lambda>v. sint (Y v)) ` set vertices)\<rparr>,
            Max_pt = \<lparr>PtX = Max ((\<lambda>v. sint (X v)) ` set vertices),
                      PtY = Max ((\<lambda>v. sint (Y v)) ` set vertices)\<rparr>\<rparr>
       \<and> GetLayoutBoundingBox (Some vertices) = GetBoundingBox (Some vertices)
       \<and> PtX (Min_pt (GetBoundingBox (Some vertices))) \<le> PtX (Max_pt (GetBoundingBox (Some vertices)))
       \<and> PtY (Min_pt (GetBoundingBox (Some vertices))) \<le> PtY (Max_pt (GetBoundingBox (Some vertices)))"
proof -
  from assms have ne: "set vertices \<noteq> {}" by simp
  have eq: "GetBoundingBox (Some vertices) =
           \<lparr>Min_pt = \<lparr>PtX = Min ((\<lambda>v. sint (X v)) ` set vertices),
                      PtY = Min ((\<lambda>v. sint (Y v)) ` set vertices)\<rparr>,
            Max_pt = \<lparr>PtX = Max ((\<lambda>v. sint (X v)) ` set vertices),
                      PtY = Max ((\<lambda>v. sint (Y v)) ` set vertices)\<rparr>\<rparr>"
    using bbox_nonempty [OF assms] by (simp add: GetBoundingBox_def)
  have l: "GetLayoutBoundingBox (Some vertices) = GetBoundingBox (Some vertices)"
    by (simp add: GetBoundingBox_def GetLayoutBoundingBox_def)
  have x: "Min ((\<lambda>v. sint (X v)) ` set vertices) \<le> Max ((\<lambda>v. sint (X v)) ` set vertices)"
    using ne by (meson List.finite_set Max_ge Min_in finite_imageI image_is_empty)
  have y: "Min ((\<lambda>v. sint (Y v)) ` set vertices) \<le> Max ((\<lambda>v. sint (Y v)) ` set vertices)"
    using ne by (meson List.finite_set Max_ge Min_in finite_imageI image_is_empty)
  show ?thesis using eq l x y by simp
qed

theorem GetBoundingBox_nonempty_witness:
  "[\<lparr>X = 3, Y = -4\<rparr>, \<lparr>X = -1, Y = 7\<rparr>, \<lparr>X = 5, Y = 0\<rparr>] \<noteq> ([] :: Vertex list)
   \<and> GetBoundingBox (Some [\<lparr>X = 3, Y = -4\<rparr>, \<lparr>X = -1, Y = 7\<rparr>, \<lparr>X = 5, Y = 0\<rparr>])
       = \<lparr>Min_pt = \<lparr>PtX = -1, PtY = -4\<rparr>, Max_pt = \<lparr>PtX = 5, PtY = 7\<rparr>\<rparr>
   \<and> GetLayoutBoundingBox (Some [\<lparr>X = 3, Y = -4\<rparr>, \<lparr>X = -1, Y = 7\<rparr>, \<lparr>X = 5, Y = 0\<rparr>])
       = \<lparr>Min_pt = \<lparr>PtX = -1, PtY = -4\<rparr>, Max_pt = \<lparr>PtX = 5, PtY = 7\<rparr>\<rparr>"
  using GetBoundingBox_nonempty [of "[\<lparr>X = 3, Y = -4\<rparr>, \<lparr>X = -1, Y = 7\<rparr>, \<lparr>X = 5, Y = 0\<rparr>]"]
  by simp

text \<open>
  Claim C3. For the nil polygon both functions return the zero rectangle. For a polygon
  that is present but has no vertex the loop body never runs, and the initial values
  \<open>i32.Maximal\<close> and \<open>i32.Minimal\<close> are returned as the corners: the result is not the
  zero rectangle, and its minimum corner lies beyond its maximum corner.
\<close>

theorem GetBoundingBox_empty_polygon:
  "GetBoundingBox None = zero_Rectangle \<and> GetLayoutBoundingBox None = zero_Rectangle
   \<and> GetBoundingBox (Some []) =
       \<lparr>Min_pt = \<lparr>PtX = 2147483647, PtY = 2147483647\<rparr>,
        Max_pt = \<lparr>PtX = - 2147483648, PtY = - 2147483648\<rparr>\<rparr>
   \<and> GetLayoutBoundingBox (Some []) =
       \<lparr>Min_pt = \<lparr>PtX = 2147483647, PtY = 2147483647\<rparr>,
        Max_pt = \<lparr>PtX = - 2147483648, PtY = - 2147483648\<rparr>\<rparr>
   \<and> GetBoundingBox (Some []) \<noteq> zero_Rectangle
   \<and> GetLayoutBoundingBox (Some []) \<noteq> zero_Rectangle"
  by (simp add: GetBoundingBox_def GetLayoutBoundingBox_def zero_Rectangle_def
      i32_Maximal_def i32_Minimal_def)

text \<open>
  Claim C5. The orientation is 0 for the nil polygon and for a polygon of fewer than three
  vertices. Otherwise, with \<open>(x0, y0)\<close> the first and \<open>(x2, y2)\<close> the third vertex, it is
  180 when \<open>x0 > x2\<close> and \<open>y0 > y2\<close>, 270 when \<open>x0 > x2\<close> and \<open>y0 \<le> y2\<close>, 90 when
  \<open>x0 \<le> x2\<close> and \<open>y0 > y2\<close>, and 0 in the remaining case. The same holds for
  \<open>GetLayoutOrientation\<close>.
\<close>

theorem GetOrientation_cases:
  "GetOrientation None = 0
   \<and> GetOrientation (Some []) = 0
   \<and> GetOrientation (Some [v0]) = 0
   \<and> GetOrientation (Some [v0, v1]) = 0
   \<and> GetOrientation (Some (v0 # v1 # v2 # rest)) =
       (if sint (X v0) > sint (X v2) \<and> sint (Y v0) > sint (Y v2) then 180
        else if sint (X v0) > sint (X v2) \<and> sint (Y v0) \<le> sint (Y v2) then 270
        else if sint (X v0) \<le> sint (X v2) \<and> sint (Y v0) > sint (Y v2) then 90
        else 0)
   \<and> GetLayoutOrientation None = GetOrientation None
   \<and> GetLayoutOrientation (Some vs) = GetOrientation (Some vs)"
  by (simp add: GetOrientation_def GetLayoutOrientation_def)

text \<open>
  Claim C9. Whatever the polygon, nil or not, with any number of vertices anywhere, both
  orientation functions return one of 0, 90, 180 and 270.
\<close>

theorem GetOrientation_range:
  "GetOrientation boundingBox \<in> {0, 90, 180, 270}
   \<and> GetLayoutOrientation boundingBox \<in> {0, 90, 180, 270}"
  by (simp add: GetOrientation_def GetLayoutOrientation_def split: option.split)

section \<open>Properties of the text-anchor extraction\<close>

lemma sint_dec:
  fixes e :: int64
  assumes "1 \<le> sint e"
  shows "sint (e - 1) = sint e - 1"
proof -
  have "sint e < 2 ^ 63" using sint_lt [of e] by simp
  with assms have "signed_take_bit 63 (sint e - 1) = sint e - 1"
    by (intro signed_take_bit_int_eq_self) simp_all
  then show ?thesis by (simp add: sint_word_ariths)
qed

lemma slice_expr_substring:
  assumes "0 \<le> lo" "lo \<le> hi" "hi \<le> int (length s)"
  shows "slice_expr s lo hi = Inr (substring s (nat lo) (nat hi))"
proof -
  let ?piece = "take (nat (hi - lo)) (drop (nat lo) s)"
  have len: "length ?piece = nat hi - nat lo" using assms by auto
  have "map ((!) s) [nat lo..<nat hi] = ?piece"
  proof (rule map_upt_eqI)
    show "length ?piece = nat hi - nat lo" by (rule len)
  next
    fix i assume "i < length ?piece"
    moreover have "nat lo \<le> length s" using assms by simp
    ultimately show "?piece ! i = s ! (nat lo + i)" by simp
  qed
  then show ?thesis using assms by (simp add: slice_expr_def substring_def)
qed

lemma slice_expr_Inr_iff:
  "(\<exists>r. slice_expr s lo hi = Inr r) \<longleftrightarrow> 0 \<le> lo \<and> lo \<le> hi \<and> hi \<le> int (length s)"
  by (simp add: slice_expr_def)

lemma segments_loop_in_range:
  assumes "\<forall>seg \<in> set segs. segment_in_range text seg"
  shows "segments_loop segs text acc =
           Inr (acc @ concat (map (\<lambda>seg. substring text (nat (sint (StartIndex seg)))
                                                  (nat (sint (EndIndex seg - 1)))) segs))"
  using assms
proof (induction segs arbitrary: acc)
  case Nil
  then show ?case by simp
next
  case (Cons seg segs)
  then have r: "segment_in_range text seg" and rest: "\<forall>seg \<in> set segs. segment_in_range text seg"
    by simp_all
  from r have "slice_expr text (sint (StartIndex seg)) (sint (EndIndex seg - 1)) =
      Inr (substring text (nat (sint (StartIndex seg))) (nat (sint (EndIndex seg - 1))))"
    unfolding segment_in_range_def by (intro slice_expr_substring) simp_all
  then show ?case using Cons.IH [OF rest] by simp
qed

lemma segments_loop_Inr_iff:
  "(\<exists>r. segments_loop segs text acc = Inr r) \<longleftrightarrow> (\<forall>seg \<in> set segs. segment_in_range text seg)"
proof (induction segs arbitrary: acc)
  case Nil
  then show ?case by simp
next
  case (Cons seg segs)
  show ?case
  proof (cases "segment_in_range text seg")
    case True
    then obtain piece where
      "slice_expr text (sint (StartIndex seg)) (sint (EndIndex seg - 1)) = Inr piece"
      unfolding segment_in_range_def slice_expr_def by simp
    then show ?thesis using True Cons.IH by simp
  next
    case False
    then have "slice_expr text (sint (StartIndex seg)) (sint (EndIndex seg - 1)) = Inl SliceBoundsOutOfRange"
      unfolding segment_in_range_def slice_expr_def by auto
    then show ?thesis using False by simp
  qed
qed

text \<open>
  Claim C2, as the code has it. When every segment addresses a part of the document text, that is
  \<open>0 \<le> StartIndex \<le> EndIndex - 1 \<le> len(text)\<close>, the extracted text is the concatenation,
  in segment order, of the substrings from \<open>StartIndex\<close> (inclusive) to \<open>EndIndex - 1\<close>
  (exclusive). For the text \<open>ABCDE\<close> and the anchor (0, 3) that is \<open>AB\<close>.
\<close>

theorem GetTextFromSegments_substrings:
  assumes "\<forall>seg \<in> set textSegments.
             0 \<le> sint (StartIndex seg) \<and> sint (StartIndex seg) \<le> sint (EndIndex seg) - 1
             \<and> sint (EndIndex seg) - 1 \<le> int (length documentText)"
  shows "GetTextFromSegments textSegments documentText =
           Inr (concat (map (\<lambda>seg. substring documentText (nat (sint (StartIndex seg)))
                                                         (nat (sint (EndIndex seg) - 1)))
                            textSegments))
         \<and> GetTextFromSegments [\<lparr>StartIndex = 0, EndIndex = 3\<rparr>] ''ABCDE'' = Inr ''AB''"
proof -
  have dec: "sint (EndIndex seg - 1) = sint (EndIndex seg) - 1" if "seg \<in> set textSegments" for seg
    using assms that by (intro sint_dec) force
  have "\<forall>seg \<in> set textSegments. segment_in_range documentText seg"
    using assms dec by (simp add: segment_in_range_def)
  from segments_loop_in_range [OF this, of "[]"]
  have "GetTextFromSegments textSegments documentText =
           Inr (concat (map (\<lambda>seg. substring documentText (nat (sint (StartIndex seg)))
                                                         (nat (sint (EndIndex seg) - 1)))
                            textSegments))"
    using dec by (simp add: GetTextFromSegments_def cong: map_cong)
  moreover have "GetTextFromSegments [\<lparr>StartIndex = 0, EndIndex = 3\<rparr>] ''ABCDE'' = Inr ''AB''"
    by (simp add: GetTextFromSegments_def slice_expr_def)
  ultimately show ?thesis by simp
qed

theorem GetTextFromSegments_substrings_witness:
  "list_all (\<lambda>seg. 0 \<le> sint (StartIndex seg) \<and> sint (StartIndex seg) \<le> sint (EndIndex seg) - 1
             \<and> sint (EndIndex seg) - 1 \<le> int (length ''ABCDE''))
     [\<lparr>StartIndex = 0, EndIndex = 3\<rparr>, \<lparr>StartIndex = 2, EndIndex = 6\<rparr>]
   \<and> GetTextFromSegments [\<lparr>StartIndex = 0, EndIndex = 3\<rparr>, \<lparr>StartIndex = 2, EndIndex = 6\<rparr>] ''ABCDE''
       = Inr ''ABCDE''"
  using GetTextFromSegments_substrings
    [of "[\<lparr>StartIndex = 0, EndIndex = 3\<rparr>, \<lparr>StartIndex = 2, EndIndex = 6\<rparr>]" "''ABCDE''"]
  by (simp add: substring_def upt_rec)

text \<open>
  Claim C2 as it was stated, for every text and every segment, fails where the slice is
  out of range. For the text \<open>ABCDE\<close> and the anchor (3, 3) the substring from position 3
  to position 2 is empty, while the slice \<open>text[3:2]\<close> panics: no text is extracted.
\<close>

theorem GetTextFromSegments_substrings_counterexample:
  "GetTextFromSegments [\<lparr>StartIndex = 3, EndIndex = 3\<rparr>] ''ABCDE'' = Inl SliceBoundsOutOfRange
   \<and> substring ''ABCDE'' 3 (nat (3 - 1)) = []
   \<and> GetTextFromSegments [\<lparr>StartIndex = 3, EndIndex = 3\<rparr>] ''ABCDE''
        \<noteq> Inr (substring ''ABCDE'' 3 (nat (3 - 1)))"
  by (simp add: GetTextFromSegments_def slice_expr_def substring_def)

text \<open>
  Claim C8. \<open>GetTextFromSegments\<close> is partial: it returns a string exactly when every
  segment satisfies \<open>0 \<le> StartIndex \<le> EndIndex - 1 \<le> len(text)\<close>, the end offset being the
  value the code computes. Otherwise the slice is out of range and the call panics; so it
  does for a segment with \<open>EndIndex = 0\<close>, for one whose \<open>EndIndex - 1\<close> is beyond the
  length of the text, and for one whose \<open>StartIndex\<close> is beyond \<open>EndIndex - 1\<close>.
\<close>

theorem GetTextFromSegments_partial:
  "((\<exists>r. GetTextFromSegments textSegments documentText = Inr r) \<longleftrightarrow>
     (\<forall>seg \<in> set textSegments.
        0 \<le> sint (StartIndex seg) \<and> sint (StartIndex seg) \<le> sint (EndIndex seg - 1)
        \<and> sint (EndIndex seg - 1) \<le> int (length documentText)))
   \<and> GetTextFromSegments [\<lparr>StartIndex = 0, EndIndex = 0\<rparr>] ''ABCDE'' = Inl SliceBoundsOutOfRange
   \<and> GetTextFromSegments [\<lparr>StartIndex = 0, EndIndex = 7\<rparr>] ''ABCDE'' = Inl SliceBoundsOutOfRange
   \<and> GetTextFromSegments [\<lparr>StartIndex = 3, EndIndex = 3\<rparr>] ''ABCDE'' = Inl SliceBoundsOutOfRange"
proof -
  have "(\<exists>r. GetTextFromSegments textSegments documentText = Inr r) \<longleftrightarrow>
     (\<forall>seg \<in> set textSegments.
        0 \<le> sint (StartIndex seg) \<and> sint (StartIndex seg) \<le> sint (EndIndex seg - 1)
        \<and> sint (EndIndex seg - 1) \<le> int (length documentText))"
    using segments_loop_Inr_iff [of textSegments documentText "[]"]
    by (simp add: GetTextFromSegments_def segment_in_range_def)
  moreover have
    "GetTextFromSegments [\<lparr>StartIndex = 0, EndIndex = 0\<rparr>] ''ABCDE'' = Inl SliceBoundsOutOfRange"
    "GetTextFromSegments [\<lparr>StartIndex = 0, EndIndex = 7\<rparr>] ''ABCDE'' = Inl SliceBoundsOutOfRange"
    "GetTextFromSegments [\<lparr>StartIndex = 3, EndIndex = 3\<rparr>] ''ABCDE'' = Inl SliceBoundsOutOfRange"
    by (simp_all add: GetTextFromSegments_def slice_expr_def)
  ultimately show ?thesis by simp
qed

theorem GetTextFromSegments_partial_witness:
  "list_all (\<lambda>seg. 0 \<le> sint (StartIndex seg) \<and> sint (StartIndex seg) \<le> sint (EndIndex seg - 1)
        \<and> sint (EndIndex seg - 1) \<le> int (length ''ABCDE''))
     [\<lparr>StartIndex = 1, EndIndex = 5\<rparr>]
   \<and> (\<exists>r. GetTextFromSegments [\<lparr>StartIndex = 1, EndIndex = 5\<rparr>] ''ABCDE'' = Inr r)
   \<and> \<not> (\<exists>r. GetTextFromSegments [\<lparr>StartIndex = 4, EndIndex = 2\<rparr>] ''ABCDE'' = Inr r)"
  using GetTextFromSegments_partial [of "[\<lparr>StartIndex = 1, EndIndex = 5\<rparr>]" "''ABCDE''"]
    GetTextFromSegments_partial [of "[\<lparr>StartIndex = 4, EndIndex = 2\<rparr>]" "''ABCDE''"]
  by simp

section \<open>Properties of the endpoint resolution\<close>

lemma strings_Index_ge: "- 1 \<le> strings_Index s sub"
  by (induction s) (auto simp: Let_def)

lemma strings_Index_neg_iff: "strings_Index s sub < 0 \<longleftrightarrow> \<not> sublist sub s"
proof (induction s)
  case Nil
  then show ?case by simp
next
  case (Cons c s)
  show ?case
  proof (cases "prefix sub (c # s)")
    case True
    then show ?thesis by (simp add: sublist_Cons_right)
  next
    case False
    then show ?thesis
      using Cons.IH strings_Index_ge [of s sub] by (auto simp: Let_def sublist_Cons_right)
  qed
qed

lemma strings_Index_bound:
  "0 \<le> strings_Index s sub \<Longrightarrow> strings_Index s sub + int (length sub) \<le> int (length s)"
proof (induction s)
  case Nil
  then show ?case by (simp split: if_splits)
next
  case (Cons c s)
  show ?case
  proof (cases "prefix sub (c # s)")
    case True
    then show ?thesis using prefix_length_le [OF True] by simp
  next
    case False
    then show ?thesis
      using Cons by (auto simp: Let_def split: if_splits)
  qed
qed

lemma prefix_of_long_append:
  assumes "prefix xs (ys @ zs)" "length xs \<le> length ys"
  shows "prefix xs ys"
  using assms by (auto simp: prefix_append)

lemma strings_Index_first:
  assumes "\<not> sublist sub (pre @ butlast sub)"
  shows "strings_Index (pre @ sub @ suf) sub = int (length pre)"
  using assms
proof (induction pre)
  case Nil
  show ?case
  proof (cases "sub @ suf")
    case Nil
    then show ?thesis by simp
  next
    case (Cons a list)
    have "prefix sub (sub @ suf)" by simp
    then have "prefix sub (a # list)" by (simp only: Cons)
    then show ?thesis by (simp add: Cons)
  qed
next
  case (Cons c pre)
  from Cons.prems have ne: "sub \<noteq> []" by auto
  have np: "\<not> prefix sub (c # pre @ sub @ suf)"
  proof
    assume p: "prefix sub (c # pre @ sub @ suf)"
    have "c # pre @ sub @ suf = ((c # pre) @ butlast sub) @ ([last sub] @ suf)"
      using ne by simp
    with p have "prefix sub (((c # pre) @ butlast sub) @ ([last sub] @ suf))" by simp
    moreover have "length sub \<le> length ((c # pre) @ butlast sub)" using ne by simp
    ultimately have "prefix sub ((c # pre) @ butlast sub)" by (rule prefix_of_long_append)
    then have "sublist sub ((c # pre) @ butlast sub)" by (rule prefix_imp_sublist)
    with Cons.prems show False by simp
  qed
  from Cons.prems have "\<not> sublist sub (pre @ butlast sub)"
    by (simp add: sublist_Cons_right)
  from Cons.IH [OF this] np show ?case by (simp add: Let_def)
qed

lemma strings_Index_char:
  "strings_Index s [c] = (if c \<in> set s then int (length (takeWhile (\<lambda>x. x \<noteq> c) s)) else - 1)"
  by (induction s) (auto simp: Let_def)

lemma slice_expr_upto_char:
  "(let j = strings_Index s [c] in if j \<ge> 0 then slice_expr s 0 j else Inr s)
     = Inr (takeWhile (\<lambda>x. x \<noteq> c) s)"
proof (cases "c \<in> set s")
  case True
  have "length (takeWhile (\<lambda>x. x \<noteq> c) s) \<le> length s" by (rule length_takeWhile_le)
  then show ?thesis using True takeWhile_eq_take [of "\<lambda>x. x \<noteq> c" s]
    by (simp add: strings_Index_char slice_expr_def)
next
  case False
  then have tw: "takeWhile (\<lambda>x. x \<noteq> c) s = s" by (auto simp: takeWhile_eq_all_conv)
  show ?thesis using False by (simp add: strings_Index_char tw)
qed

lemma GetRequestName_found:
  assumes "0 \<le> strings_Index (Path u) ''/projects/''"
  shows "GetRequestName u =
     Inr (takeWhile (\<lambda>x. x \<noteq> CHR '':'') (drop (nat (strings_Index (Path u) ''/projects/'' + 1)) (Path u)))"
proof -
  let ?i = "strings_Index (Path u) ''/projects/''"
  from strings_Index_bound [OF assms] have "?i + 1 \<le> int (length (Path u))" by simp
  with assms have "slice_expr (Path u) (?i + 1) (int (length (Path u))) = Inr (drop (nat (?i + 1)) (Path u))"
    by (simp add: slice_expr_def)
  then show ?thesis
    using assms slice_expr_upto_char [of "drop (nat (?i + 1)) (Path u)" "CHR '':''"]
    by (simp add: GetRequestName_def Let_def)
qed

lemma GetRequestName_first_occurrence:
  assumes "Path u = pre @ ''/projects/'' @ suf" "\<not> sublist ''/projects/'' (pre @ ''/projects'')"
  shows "GetRequestName u = Inr (''projects/'' @ takeWhile (\<lambda>x. x \<noteq> CHR '':'') suf)"
proof -
  have "\<not> sublist ''/projects/'' (pre @ butlast ''/projects/'')" using assms(2) by simp
  from strings_Index_first [OF this, of suf]
  have i: "strings_Index (Path u) ''/projects/'' = int (length pre)" using assms(1) by simp
  then have "0 \<le> strings_Index (Path u) ''/projects/''" by simp
  from GetRequestName_found [OF this]
  have "GetRequestName u =
     Inr (takeWhile (\<lambda>x. x \<noteq> CHR '':'') (drop (Suc (length pre)) (Path u)))"
    by (simp add: i nat_add_distrib)
  moreover have "drop (Suc (length pre)) (Path u) = ''projects/'' @ suf"
    by (simp add: assms(1))
  ultimately show ?thesis by simp
qed

lemma GetRequestName_absent:
  assumes "\<not> sublist ''/projects/'' (Path u)"
  shows "GetRequestName u = Inr (Path u)"
  using assms strings_Index_neg_iff [of "Path u" "''/projects/''"]
  by (simp add: GetRequestName_def Let_def)

lemma GetRequestName_total: "\<exists>r. GetRequestName u = Inr r"
proof (cases "0 \<le> strings_Index (Path u) ''/projects/''")
  case True
  from GetRequestName_found [OF this] show ?thesis by blast
next
  case False
  then show ?thesis by (simp add: GetRequestName_def Let_def)
qed

lemma GetHostName_cases:
  "GetHostName u = (if CHR '':'' \<in> set (Host u) then Host u else Host u @ '':443'')"
  by (simp add: GetHostName_def strings_Index_char Let_def)

lemma url_Port_default:
  assumes "CHR '':'' \<notin> set host"
  shows "url_Port (host @ '':443'') = ''443''"
  using assms by (simp add: url_Port_def is_digit_def Let_def)

lemma url_Port_nonempty_colon: "url_Port host \<noteq> [] \<Longrightarrow> CHR '':'' \<in> set host"
  by (auto simp: url_Port_def Let_def split: if_splits)

text \<open>
  Claim C6, as the code has it. The network target is the host of the URL, with \<open>:443\<close>
  appended exactly when the host contains no colon: a host that carries a port is kept, a
  host without a colon gets port 443. When the path contains \<open>/projects/\<close>, the resource
  name starts right after the slash that opens the first \<open>/projects/\<close>, so it begins with
  \<open>projects/\<close>, and it ends before the first colon that follows, or with the path when
  no colon follows. When the path does not contain \<open>/projects/\<close>, the resource name is the
  whole path. No slice of the function is ever out of range.
\<close>

theorem endpoint_resolution:
  "(CHR '':'' \<in> set (Host u) \<longrightarrow> GetHostName u = Host u)
   \<and> (CHR '':'' \<notin> set (Host u) \<longrightarrow>
        GetHostName u = Host u @ '':443'' \<and> url_Port (GetHostName u) = ''443'')
   \<and> (url_Port (Host u) \<noteq> [] \<longrightarrow> GetHostName u = Host u)
   \<and> (Path u = pre @ ''/projects/'' @ suf \<and> \<not> sublist ''/projects/'' (pre @ ''/projects'') \<longrightarrow>
        GetRequestName u = Inr (''projects/'' @ takeWhile (\<lambda>c. c \<noteq> CHR '':'') suf))
   \<and> (\<not> sublist ''/projects/'' (Path u) \<longrightarrow> GetRequestName u = Inr (Path u))
   \<and> (\<exists>name. GetRequestName u = Inr name)"
  using GetHostName_cases [of u] url_Port_default [of "Host u"] url_Port_nonempty_colon [of "Host u"]
    GetRequestName_first_occurrence [of u pre suf] GetRequestName_absent [of u]
    GetRequestName_total [of u]
  by auto

theorem endpoint_resolution_witness:
  "CHR '':'' \<notin> set ''us-documentai.googleapis.com''
   \<and> ''/v1/projects/p/locations/us/processors/x:process'' = ''/v1'' @ ''/projects/'' @ ''p/locations/us/processors/x:process''
   \<and> \<not> sublist ''/projects/'' (''/v1'' @ ''/projects'')
   \<and> GetHostName \<lparr>Host = ''us-documentai.googleapis.com'',
                    Path = ''/v1/projects/p/locations/us/processors/x:process''\<rparr>
        = ''us-documentai.googleapis.com:443''
   \<and> GetRequestName \<lparr>Host = ''us-documentai.googleapis.com'',
                       Path = ''/v1/projects/p/locations/us/processors/x:process''\<rparr>
        = Inr ''projects/p/locations/us/processors/x''
   \<and> CHR '':'' \<in> set ''localhost:8443''
   \<and> url_Port ''localhost:8443'' \<noteq> []
   \<and> \<not> sublist ''/projects/'' ''/v1/foo:process''
   \<and> GetHostName \<lparr>Host = ''localhost:8443'', Path = ''/v1/foo:process''\<rparr> = ''localhost:8443''
   \<and> GetRequestName \<lparr>Host = ''localhost:8443'', Path = ''/v1/foo:process''\<rparr> = Inr ''/v1/foo:process''"
  using endpoint_resolution [of "\<lparr>Host = ''us-documentai.googleapis.com'',
                    Path = ''/v1/projects/p/locations/us/processors/x:process''\<rparr>"
      "''/v1''" "''p/locations/us/processors/x:process''"]
    endpoint_resolution [of "\<lparr>Host = ''localhost:8443'', Path = ''/v1/foo:process''\<rparr>" "[]" "[]"]
  by (simp add: sublist_Cons_right url_Port_def is_digit_def)

text \<open>
  Claim C6 as it was stated fails in three places. The resource name of a path that
  contains \<open>/projects/\<close> begins with \<open>projects/\<close>, without the slash. A path that does not
  contain \<open>/projects/\<close> keeps its colon suffix. The host \<open>[::1]\<close>, an IPv6 literal, has
  no port, and yet it is returned without the default port.
\<close>

theorem endpoint_resolution_counterexample:
  "GetRequestName \<lparr>Host = ''us-documentai.googleapis.com'',
                   Path = ''/v1/projects/p/locations/us/processors/x:process''\<rparr>
     = Inr ''projects/p/locations/us/processors/x''
   \<and> \<not> prefix ''/projects/'' ''projects/p/locations/us/processors/x''
   \<and> GetRequestName \<lparr>Host = ''us-documentai.googleapis.com'', Path = ''/v1/foo:process''\<rparr>
     = Inr ''/v1/foo:process''
   \<and> url_Port ''[::1]'' = []
   \<and> GetHostName \<lparr>Host = ''[::1]'', Path = ''/v1/projects/p/locations/us/processors/x:process''\<rparr>
     = ''[::1]''"
  by (simp add: GetRequestName_def GetHostName_def slice_expr_def url_Port_def is_digit_def Let_def)

text \<open>
  Claim C10. When the path of the endpoint URL contains no occurrence of \<open>/projects/\<close>,
  \<open>GetRequestName\<close> returns the whole path as it is, colon suffix included, and does not
  fail.
\<close>

theorem GetRequestName_without_projects:
  assumes "\<not> sublist ''/projects/'' (Path endpoint)"
  shows "GetRequestName endpoint = Inr (Path endpoint)"
  using assms by (rule GetRequestName_absent)

theorem GetRequestName_without_projects_witness:
  "\<not> sublist ''/projects/'' (Path \<lparr>Host = ''us-documentai.googleapis.com'', Path = ''/v1/foo:process''\<rparr>)
   \<and> GetRequestName \<lparr>Host = ''us-documentai.googleapis.com'', Path = ''/v1/foo:process''\<rparr>
       = Inr ''/v1/foo:process''"
  using GetRequestName_without_projects
    [of "\<lparr>Host = ''us-documentai.googleapis.com'', Path = ''/v1/foo:process''\<rparr>"]
  by (simp add: sublist_Cons_right)


section \<open>Properties of the ignore list\<close>

lemma clean_loop_filter:
  "clean_loop globs acc = acc @ filter (\<lambda>s. s \<noteq> []) (map TrimSpace globs)"
  by (induction globs arbitrary: acc) (simp_all add: Let_def)

lemma leading_width_zero_iff:
  "leading_width s = 0 \<longleftrightarrow> (\<forall>e \<in> set white_space. \<not> prefix e s)"
proof (cases "find (\<lambda>e. prefix e s) white_space")
  case None
  have "leading_width s = 0" by (simp add: leading_width_def None)
  moreover have "\<forall>e \<in> set white_space. \<not> prefix e s" using None by (simp add: find_None_iff)
  ultimately show ?thesis by simp
next
  case (Some e)
  then have "e \<in> set white_space" "prefix e s" by (auto simp: find_Some_iff)
  moreover from \<open>e \<in> set white_space\<close> have "e \<noteq> []" by (auto simp: white_space_def)
  ultimately show ?thesis using Some by (auto simp: leading_width_def)
qed

lemma trailing_width_zero_iff:
  "trailing_width s = 0 \<longleftrightarrow> (\<forall>e \<in> set white_space. \<not> suffix e s)"
proof (cases "find (\<lambda>e. suffix e s) white_space")
  case None
  have "trailing_width s = 0" by (simp add: trailing_width_def None)
  moreover have "\<forall>e \<in> set white_space. \<not> suffix e s" using None by (simp add: find_None_iff)
  ultimately show ?thesis by simp
next
  case (Some e)
  then have "e \<in> set white_space" "suffix e s" by (auto simp: find_Some_iff)
  moreover from \<open>e \<in> set white_space\<close> have "e \<noteq> []" by (auto simp: white_space_def)
  ultimately show ?thesis using Some by (auto simp: trailing_width_def)
qed

lemma TrimLeft_leading: "leading_width (TrimLeft s) = 0"
  by (induction s rule: TrimLeft.induct) (subst TrimLeft.simps, simp)

lemma TrimLeft_suffix: "suffix (TrimLeft s) s"
proof (induction s rule: TrimLeft.induct)
  case (1 s)
  show ?case
  proof (cases "leading_width s = 0")
    case True
    then show ?thesis by (subst TrimLeft.simps) simp
  next
    case False
    from 1 [OF False] have "suffix (TrimLeft (drop (leading_width s) s)) s"
      using suffix_drop suffix_order.trans by blast
    then show ?thesis using False by (subst TrimLeft.simps) simp
  qed
qed

lemma TrimRight_trailing: "trailing_width (TrimRight s) = 0"
  by (induction s rule: TrimRight.induct) (subst TrimRight.simps, simp)

lemma TrimRight_prefix: "prefix (TrimRight s) s"
proof (induction s rule: TrimRight.induct)
  case (1 s)
  show ?case
  proof (cases "trailing_width s = 0")
    case True
    then show ?thesis by (subst TrimRight.simps) simp
  next
    case False
    from 1 [OF False] have "prefix (TrimRight (take (length s - trailing_width s) s)) s"
      using take_is_prefix prefix_order.trans by blast
    then show ?thesis using False by (subst TrimRight.simps) simp
  qed
qed

lemma TrimSpace_trimmed: "leading_width (TrimSpace s) = 0 \<and> trailing_width (TrimSpace s) = 0"
proof -
  have "\<not> prefix e (TrimRight (TrimLeft s))" if "e \<in> set white_space" for e
  proof
    assume "prefix e (TrimRight (TrimLeft s))"
    with TrimRight_prefix [of "TrimLeft s"] have "prefix e (TrimLeft s)"
      using prefix_order.trans by blast
    with that TrimLeft_leading [of s] show False by (simp add: leading_width_zero_iff)
  qed
  then show ?thesis by (simp add: TrimSpace_def TrimRight_trailing leading_width_zero_iff)
qed

lemma TrimSpace_sublist: "sublist (TrimSpace s) s"
  unfolding TrimSpace_def
  using TrimRight_prefix [of "TrimLeft s"] TrimLeft_suffix [of s]
  by (meson prefix_imp_sublist suffix_imp_sublist sublist_order.order.trans)

lemma lineBreak_Split_no_LF:
  "LF \<notin> set cur \<Longrightarrow> \<forall>p \<in> set (lineBreak_Split cur s). LF \<notin> set p"
  by (induction cur s rule: lineBreak_Split.induct) (auto simp: CR_def LF_def)

lemma sublist_no_LF: "sublist q p \<Longrightarrow> LF \<notin> set p \<Longrightarrow> LF \<notin> set q"
  using set_mono_sublist by blast

lemma handleIgnoreFile_ReadOk:
  "handleIgnoreFile (ReadOk fileContents) =
     (filter (\<lambda>s. s \<noteq> []) (map TrimSpace (lineBreak_Split [] fileContents)), [])"
  by (simp add: handleIgnoreFile_def clean_loop_filter)

lemma patterns_clean:
  assumes "p \<in> set (filter (\<lambda>s. s \<noteq> []) (map TrimSpace (lineBreak_Split [] fileContents)))"
  shows "p \<noteq> [] \<and> LF \<notin> set p \<and> leading_width p = 0 \<and> trailing_width p = 0"
proof -
  from assms obtain g where g: "g \<in> set (lineBreak_Split [] fileContents)" and p: "p = TrimSpace g"
    and ne: "p \<noteq> []" by auto
  from g lineBreak_Split_no_LF [of "[]" fileContents] have "LF \<notin> set g" by simp
  with TrimSpace_sublist [of g] have "LF \<notin> set p" unfolding p by (rule sublist_no_LF)
  with ne TrimSpace_trimmed [of g] show ?thesis by (simp add: p)
qed

text \<open>
  Claim C7. The loader of the ignore list returns a list in every case: the empty list,
  with nothing logged, when the file does not exist; the empty list and one logged error
  when the file cannot be opened or cannot be read. For contents that were read, it
  returns the pieces between the line breaks, each trimmed of the white space around it,
  without those that are empty after trimming, in their order and with their duplicates.
  No returned pattern is empty, contains a line feed, or begins or ends with white space.
\<close>

theorem GetIgnoreList_spec:
  "GetIgnoreList NotExist = ([], [])
   \<and> GetIgnoreList OpenFailed = ([], [''couldn't Open ignore file.''])
   \<and> GetIgnoreList (Opened ReadFailed) = ([], [''couldn't Read ignore file.''])
   \<and> GetIgnoreList (Opened (ReadOk fileContents)) =
       (filter (\<lambda>s. s \<noteq> []) (map TrimSpace (lineBreak_Split [] fileContents)), [])
   \<and> (\<forall>p \<in> set (fst (GetIgnoreList opened)).
         p \<noteq> [] \<and> LF \<notin> set p \<and> leading_width p = 0 \<and> trailing_width p = 0)
   \<and> fst (GetIgnoreList (Opened (ReadOk
         (''  *.jpg '' @ [LF, LF] @ ''*.bmp '' @ [LF] @ ''  ./examples/**''))))
       = [''*.jpg'', ''*.bmp'', ''./examples/**'']"
proof -
  have a: "GetIgnoreList NotExist = ([], [])"
    "GetIgnoreList OpenFailed = ([], [''couldn't Open ignore file.''])"
    "GetIgnoreList (Opened ReadFailed) = ([], [''couldn't Read ignore file.''])"
    by (simp_all add: GetIgnoreList_def handleIgnoreFile_def)
  have b: "GetIgnoreList (Opened (ReadOk c)) =
       (filter (\<lambda>s. s \<noteq> []) (map TrimSpace (lineBreak_Split [] c)), [])" for c
    by (simp add: GetIgnoreList_def handleIgnoreFile_ReadOk)
  have c: "\<forall>p \<in> set (fst (GetIgnoreList opened)).
         p \<noteq> [] \<and> LF \<notin> set p \<and> leading_width p = 0 \<and> trailing_width p = 0"
  proof (cases opened)
    case (Opened r)
    show ?thesis
    proof (cases r)
      case ReadFailed
      with Opened show ?thesis by (simp add: a)
    next
      case (ReadOk c)
      with Opened show ?thesis using patterns_clean [of _ c] by (simp only: b fst_conv) blast
    qed
  qed (simp_all add: a)
  have d: "fst (GetIgnoreList (Opened (ReadOk
         (''  *.jpg '' @ [LF, LF] @ ''*.bmp '' @ [LF] @ ''  ./examples/**''))))
       = [''*.jpg'', ''*.bmp'', ''./examples/**'']"
    by code_simp
  from a b c d show ?thesis by blast
qed

theorem GetIgnoreList_spec_witness:
  "list_all (\<lambda>p. p \<noteq> [] \<and> LF \<notin> set p \<and> leading_width p = 0 \<and> trailing_width p = 0)
     (fst (GetIgnoreList (Opened (ReadOk (''*.jpg '' @ [CR, LF] @ ''  '' @ [LF] @ ''*.jpg'')))))
   \<and> GetIgnoreList (Opened (ReadOk (''*.jpg '' @ [CR, LF] @ ''  '' @ [LF] @ ''*.jpg'')))
      = ([''*.jpg'', ''*.jpg''], [])"
proof -
  let ?c = "''*.jpg '' @ [CR, LF] @ ''  '' @ [LF] @ ''*.jpg''"
  note spec = GetIgnoreList_spec [of ?c "Opened (ReadOk ?c)"]
  have "\<forall>p \<in> set (fst (GetIgnoreList (Opened (ReadOk ?c)))).
         p \<noteq> [] \<and> LF \<notin> set p \<and> leading_width p = 0 \<and> trailing_width p = 0"
    by (rule spec [THEN conjunct2, THEN conjunct2, THEN conjunct2, THEN conjunct2, THEN conjunct1])
  then have "list_all (\<lambda>p. p \<noteq> [] \<and> LF \<notin> set p \<and> leading_width p = 0 \<and> trailing_width p = 0)
     (fst (GetIgnoreList (Opened (ReadOk ?c))))"
    by (simp only: list_all_iff)
  moreover have "GetIgnoreList (Opened (ReadOk ?c)) = ([''*.jpg'', ''*.jpg''], [])"
    by code_simp
  ultimately show ?thesis by (rule conjI)
qed


section \<open>Properties of the batch run\<close>

text \<open>
  As long as the device has room for what is written, no call of the buffered writer
  fails, and the bytes it has accepted all reach the file with the next flush.
\<close>

lemma Write_loop_stop:
  "\<not> (length p > Available b \<and> err b = None) \<Longrightarrow> Write_loop b p nn = (b, p, nn)"
  by (subst Write_loop.simps) auto

lemma Write_loop_direct:
  assumes "err b = None" "buf b = []" "length p > Available b" "length p \<le> room (wr b)"
  shows "Write_loop b p nn =
    (b\<lparr>err := None, wr := (wr b)\<lparr>written := written (wr b) @ p, room := room (wr b) - length p\<rparr>\<rparr>,
     [], nn + length p)"
  using assms
  by (subst Write_loop.simps) (simp add: File_Write_def Buffered_def Write_loop_stop)

lemma Write_loop_fill:
  assumes "err b = None" "buf b \<noteq> []" "length p > Available b"
    "length (buf b) + length p \<le> room (wr b)"
  shows "Write_loop b p nn =
    Write_loop (b\<lparr>buf := [], wr := (wr b)\<lparr>written := written (wr b) @ buf b @ take (Available b) p,
                       room := room (wr b) - (length (buf b) + Available b)\<rparr>\<rparr>)
      (drop (Available b) p) (nn + Available b)"
  using assms
  by (subst Write_loop.simps)
     (simp add: File_Write_def Flush_def Buffered_def Let_def min_def)

lemma Write_loop_ok:
  assumes "err b = None" "length (buf b) + length p \<le> room (wr b)"
  shows "\<exists>b' p'. Write_loop b p nn = (b', p', nn + (length p - length p'))
     \<and> err b' = None \<and> length p' \<le> Available b' \<and> length p' \<le> length p
     \<and> written (wr b') @ buf b' @ p' = written (wr b) @ buf b @ p
     \<and> room (wr b') + length (written (wr b')) = room (wr b) + length (written (wr b))"
proof (cases "length p > Available b")
  case False
  then show ?thesis using assms by (simp add: Write_loop_stop)
next
  case long: True
  show ?thesis
  proof (cases "buf b = []")
    case True
    from Write_loop_direct [OF assms(1) True long] assms show ?thesis by (simp add: True)
  next
    case False
    let ?b1 = "b\<lparr>buf := [], wr := (wr b)\<lparr>written := written (wr b) @ buf b @ take (Available b) p,
                       room := room (wr b) - (length (buf b) + Available b)\<rparr>\<rparr>"
    let ?p1 = "drop (Available b) p"
    have step: "Write_loop b p nn = Write_loop ?b1 ?p1 (nn + Available b)"
      by (rule Write_loop_fill [OF assms(1) False long assms(2)])
    show ?thesis
    proof (cases "length ?p1 > Available ?b1")
      case False
      then have "Write_loop ?b1 ?p1 (nn + Available b) = (?b1, ?p1, nn + Available b)"
        by (simp add: Write_loop_stop)
      with step False long assms show ?thesis by (simp add: Available_def)
    next
      case True
      have "length ?p1 \<le> room (wr ?b1)" using assms long by simp
      from Write_loop_direct [of ?b1 ?p1 "nn + Available b", OF _ _ True this] assms(1)
      have "Write_loop ?b1 ?p1 (nn + Available b) =
        (?b1\<lparr>err := None, wr := (wr ?b1)\<lparr>written := written (wr ?b1) @ ?p1,
            room := room (wr ?b1) - length ?p1\<rparr>\<rparr>, [], nn + Available b + length ?p1)"
        by simp
      with step long assms show ?thesis by (simp add: Available_def)
    qed
  qed
qed

lemma Write_ok:
  assumes "err b = None" "length (buf b) + length p \<le> room (wr b)"
  shows "\<exists>b'. Write b p = ((length p, None), b') \<and> err b' = None
     \<and> written (wr b') @ buf b' = written (wr b) @ buf b @ p
     \<and> room (wr b') + length (written (wr b')) = room (wr b) + length (written (wr b))"
proof -
  from Write_loop_ok [OF assms, of 0] obtain b' p' where
    l: "Write_loop b p 0 = (b', p', length p - length p')" and e: "err b' = None"
    and a: "length p' \<le> Available b'" and le: "length p' \<le> length p"
    and w: "written (wr b') @ buf b' @ p' = written (wr b) @ buf b @ p"
    and r: "room (wr b') + length (written (wr b')) = room (wr b) + length (written (wr b))"
    by auto
  from a have "min (Available b') (length p') = length p'" by simp
  with l e le w r show ?thesis by (simp add: Write_def Let_def)
qed

lemma Flush_ok:
  assumes "err b = None" "length (buf b) \<le> room (wr b)"
  shows "Flush b = (None, b\<lparr>buf := [], wr := (wr b)\<lparr>written := written (wr b) @ buf b,
                                   room := room (wr b) - length (buf b)\<rparr>\<rparr>)"
  using assms by (cases b) (auto simp: Flush_def File_Write_def Buffered_def)


lemma process_image_failed:
  assumes "line_of m outputFull predictionEndpoint info = None"
  shows "\<exists>info'. process_image m outputFull predictionEndpoint info w errorCount
           = (info', w, errorCount + 1)"
proof -
  obtain r info' where
    rec: "(if length predictionEndpoint = 0 then CallVisionAPI m info
            else CallDocumentAI m predictionEndpoint info) = (r, info')"
    by (meson surj_pair)
  show ?thesis
  proof (cases r)
    case (Some e)
    with rec show ?thesis by (simp add: process_image_def)
  next
    case None
    obtain jsonData e where
      js: "(if outputFull then GetFullJSON m info' else GetCompactJSON m info') = (jsonData, e)"
      by (meson surj_pair)
    from assms rec None js obtain x where "e = Some x"
      by (cases e) (simp_all add: line_of_def)
    with rec None js show ?thesis by (simp add: process_image_def)
  qed
qed

lemma process_image_written:
  assumes line: "line_of m outputFull predictionEndpoint info = Some line"
    and w: "err w = None" "buf w = []" "length line \<le> room (wr w)"
  shows "\<exists>info' w'. process_image m outputFull predictionEndpoint info w errorCount
           = (info', w', errorCount)
         \<and> err w' = None \<and> buf w' = [] \<and> written (wr w') = written (wr w) @ line
         \<and> room (wr w') = room (wr w) - length line"
proof -
  obtain info' jsonData where
    rec: "(if length predictionEndpoint = 0 then CallVisionAPI m info
            else CallDocumentAI m predictionEndpoint info) = (None, info')"
    and js: "(if outputFull then GetFullJSON m info' else GetCompactJSON m info') = (jsonData, None)"
    and l: "line = jsonData @ [CHR 0x0A]"
    using line unfolding line_of_def by (auto split: prod.splits option.splits)
  from w l have "length (buf w) + length jsonData \<le> room (wr w)" by simp
  from Write_ok [OF w(1) this] obtain w1 where
    w1: "Write w jsonData = ((length jsonData, None), w1)" "err w1 = None"
      "written (wr w1) @ buf w1 = written (wr w) @ buf w @ jsonData"
      "room (wr w1) + length (written (wr w1)) = room (wr w) + length (written (wr w))"
    by blast
  from w1(3) have "length (written (wr w1)) + length (buf w1) =
      length (written (wr w)) + length (buf w) + length jsonData"
    by (metis length_append add.assoc)
  with w1(4) w l have r1: "length (buf w1) + length [CHR 0x0A] \<le> room (wr w1)" by simp
  from Write_ok [OF w1(2) r1] obtain w2 where
    w2: "Write w1 [CHR 0x0A] = ((length [CHR 0x0A], None), w2)" "err w2 = None"
      "written (wr w2) @ buf w2 = written (wr w1) @ buf w1 @ [CHR 0x0A]"
      "room (wr w2) + length (written (wr w2)) = room (wr w1) + length (written (wr w1))"
    by blast
  from w2(3) w1(3) w(2) l have out: "written (wr w2) @ buf w2 = written (wr w) @ line" by simp
  then have "length (written (wr w2)) + length (buf w2) = length (written (wr w)) + length line"
    by (metis length_append)
  with w2(4) w1(4) w(3) have r2: "length (buf w2) \<le> room (wr w2)"
    and r3: "room (wr w2) - length (buf w2) = room (wr w) - length line" by simp_all
  note f = Flush_ok [OF w2(2) r2]
  have "process_image m outputFull predictionEndpoint info w errorCount
      = (info', snd (Flush w2), errorCount)"
    using rec js w1(1) w2(1) by (simp add: process_image_def WriteString_def)
  then show ?thesis using f w2(2) out r3 by simp
qed

lemma images_loop_written:
  assumes "err w = None" "buf w = []"
    "length (expected_output m outputFull predictionEndpoint images) \<le> room (wr w)"
  shows "\<exists>images' w'. images_loop m outputFull predictionEndpoint images w errorCount
           = (images', w', errorCount + failed_count m outputFull predictionEndpoint images)
         \<and> err w' = None \<and> buf w' = []
         \<and> written (wr w') = written (wr w) @ expected_output m outputFull predictionEndpoint images
         \<and> room (wr w') = room (wr w) - length (expected_output m outputFull predictionEndpoint images)"
  using assms
proof (induction images arbitrary: w errorCount)
  case Nil
  then show ?case by (simp add: expected_output_def failed_count_def)
next
  case (Cons info images)
  show ?case
  proof (cases "line_of m outputFull predictionEndpoint info")
    case None
    from process_image_failed [OF None] obtain info' where
      p: "process_image m outputFull predictionEndpoint info w errorCount = (info', w, errorCount + 1)"
      by blast
    from None Cons.prems(3)
    have "length (expected_output m outputFull predictionEndpoint images) \<le> room (wr w)"
      by (simp add: expected_output_def)
    from Cons.IH [OF Cons.prems(1,2) this, of "errorCount + 1"] p None show ?thesis
      by (auto simp: expected_output_def failed_count_def)
  next
    case (Some line)
    from Some Cons.prems(3) have len: "length line \<le> room (wr w)"
      and rest: "length (expected_output m outputFull predictionEndpoint images)
                   \<le> room (wr w) - length line"
      by (simp_all add: expected_output_def)
    from process_image_written [OF Some Cons.prems(1,2) len, of errorCount] obtain info' w' where
      p: "process_image m outputFull predictionEndpoint info w errorCount = (info', w', errorCount)"
      and w': "err w' = None" "buf w' = []" "written (wr w') = written (wr w) @ line"
        "room (wr w') = room (wr w) - length line"
      by blast
    from rest w'(4)
    have "length (expected_output m outputFull predictionEndpoint images) \<le> room (wr w')" by simp
    from Cons.IH [OF w'(1,2) this, of errorCount] p Some w'(3,4) show ?thesis
      by (auto simp: expected_output_def failed_count_def)
  qed
qed

text \<open>
  When the device has room for the whole expected output, the run leaves exactly that
  output in the file: one line per image whose recognition and serialization succeed, in
  the order of the images. It returns an error exactly when some image failed.
\<close>

lemma DetectImageText_when_writes_succeed:
  assumes "length (expected_output m outputFull predictionEndpoint images) \<le> room f"
  shows "\<exists>images'. DetectImageText m (Some f) images outputFull predictionEndpoint =
     (if failed_count m outputFull predictionEndpoint images > 0
      then Some ''One or more OCR request failed'' else None,
      images',
      Some (f\<lparr>written := written f @ expected_output m outputFull predictionEndpoint images,
              room := room f - length (expected_output m outputFull predictionEndpoint images)\<rparr>))"
proof -
  have "err (NewWriter f) = None" "buf (NewWriter f) = []" "wr (NewWriter f) = f"
    by (simp_all add: NewWriter_def)
  with assms images_loop_written [of "NewWriter f" m outputFull predictionEndpoint images 0]
  obtain images' w' where
    l: "images_loop m outputFull predictionEndpoint images (NewWriter f) 0
           = (images', w', failed_count m outputFull predictionEndpoint images)"
    and w': "written (wr w') = written f @ expected_output m outputFull predictionEndpoint images"
      "room (wr w') = room f - length (expected_output m outputFull predictionEndpoint images)"
    by auto
  from w' have "wr w' = f\<lparr>written := written f @ expected_output m outputFull predictionEndpoint images,
              room := room f - length (expected_output m outputFull predictionEndpoint images)\<rparr>"
    by (cases "wr w'") simp
  with l show ?thesis by (simp add: DetectImageText_def)
qed

text \<open>
  Claim C1. A failed write of a line is to be counted as an error of the run, and the
  output is to hold one line for every image that was processed without error. The error
  that \<open>w.Flush()\<close> returns is dropped, though, and with lines shorter than the buffer
  the flush is where the file is written. On a device that accepts no byte, a run over one
  image whose recognition and serialization succeed counts no error and returns none,
  while the output holds no line and the line is left in the buffer. With room for 30
  bytes, a run over two such images returns no error either and leaves one line and a
  fragment of the second.
\<close>

theorem DetectImageText_flush_error_lost:
  "DetectImageText succeeding_methods (Some \<lparr>written = [], room = 0\<rparr>) [''a.png''] False []
     = (None, [''a.png''], Some \<lparr>written = [], room = 0\<rparr>)
   \<and> images_loop succeeding_methods False [] [''a.png''] (NewWriter \<lparr>written = [], room = 0\<rparr>) 0
     = ([''a.png''],
        \<lparr>buf = ''{\"filename\":\"a.png\"}'' @ [CHR 0x0A], err = Some ''no space left on device'',
         wr = \<lparr>written = [], room = 0\<rparr>\<rparr>, 0)
   \<and> expected_output succeeding_methods False [] [''a.png''] = ''{\"filename\":\"a.png\"}'' @ [CHR 0x0A]
   \<and> DetectImageText succeeding_methods (Some \<lparr>written = [], room = 30\<rparr>) [''a.png'', ''b.png''] False []
     = (None, [''a.png'', ''b.png''],
        Some \<lparr>written = ''{\"filename\":\"a.png\"}'' @ [CHR 0x0A] @ ''{\"filenam'', room = 0\<rparr>)"
  by (simp add: DetectImageText_def process_image_def succeeding_methods_def Write_def
      WriteString_def Write_loop.simps Flush_def File_Write_def NewWriter_def Available_def
      Buffered_def defaultBufSize_def expected_output_def line_of_def)


end
